theory Spec2Isabelle
  imports Main "HOL-Library.Word" "HOL-Library.Signed_Division" "HOL-Library.Multiset"
begin

unbundle bit_operations_syntax

section \<open>midi2grandma.ino: two faders, smoothed and sent as MIDI Control Change\<close>

text \<open>
  The sketch is written for a board with native USB driven by the MIDIUSB library; the
  integer widths below are those of avr-gcc on the ATmega32U4 (Leonardo, Micro):
  \<^verbatim>\<open>int\<close> is 16 bits, \<^verbatim>\<open>long\<close> and \<^verbatim>\<open>unsigned long\<close> are 32 bits, \<^verbatim>\<open>byte\<close> is 8 bits.
  Arithmetic is two's complement: \<open>+\<close>, \<open>-\<close> and \<open>*\<close> on words wrap, \<open>sint\<close> reads a
  signed value, \<open>uint\<close> and \<open>unat\<close> an unsigned one. On \<^verbatim>\<open>unsigned long\<close> the wrap-around
  is what C defines. On \<^verbatim>\<open>int\<close> and \<^verbatim>\<open>long\<close> an overflow is undefined in C and wraps in
  the code avr-gcc emits; the properties below that speak of sums and differences state
  them on the signed values, so that they also say that no such overflow happens.
\<close>

type_synonym c_int = "16 word"
type_synonym c_long = "32 word"
type_synonym c_ulong = "32 word"
type_synonym byte = "8 word"

subsection \<open>C operators that HOL does not have on words\<close>

text \<open>\<^verbatim>\<open>a / b\<close> on \<^verbatim>\<open>long\<close>: the quotient truncated towards zero.\<close>

definition long_div :: "c_long \<Rightarrow> c_long \<Rightarrow> c_long" where
  "long_div a b = word_of_int (sint a sdiv sint b)"

text \<open>\<^verbatim>\<open>a % b\<close> on \<^verbatim>\<open>int\<close>: the remainder of the truncated division.\<close>

definition int_mod :: "c_int \<Rightarrow> c_int \<Rightarrow> c_int" where
  "int_mod a b = word_of_int (sint a smod sint b)"

text \<open>Conversions: \<^verbatim>\<open>int\<close> to \<^verbatim>\<open>long\<close> extends the sign; \<^verbatim>\<open>long\<close> to \<^verbatim>\<open>int\<close> and
  \<^verbatim>\<open>int\<close> to \<^verbatim>\<open>byte\<close> keep the low bits.\<close>

definition int_to_long :: "c_int \<Rightarrow> c_long" where
  "int_to_long x = scast x"

definition long_to_int :: "c_long \<Rightarrow> c_int" where
  "long_to_int x = ucast x"

definition int_to_byte :: "c_int \<Rightarrow> byte" where
  "int_to_byte x = ucast x"

definition byte_to_int :: "byte \<Rightarrow> c_int" where
  "byte_to_int x = ucast x"

subsection \<open>Arduino core: \<^verbatim>\<open>abs\<close>, \<^verbatim>\<open>constrain\<close>, \<^verbatim>\<open>map\<close>\<close>

text \<open>Modelled from the spec: the macro \<^verbatim>\<open>abs\<close> of the Arduino core is not among the
  sources; the spec's \<^verbatim>\<open>abs(output - last_emitted_value)\<close>, as the core writes it,
  \<^verbatim>\<open>((x)>0?(x):-(x))\<close>, on \<^verbatim>\<open>int\<close>.\<close>

definition abs_macro :: "c_int \<Rightarrow> c_int" where
  "abs_macro x = (if 0 <s x then x else - x)"

text \<open>Modelled from the spec: the macro \<^verbatim>\<open>constrain\<close> of the Arduino core is not among
  the sources; the spec's "clamp the result into [out_min, out_max]", as the core writes
  it, \<^verbatim>\<open>((amt)<(low)?(low):((amt)>(high)?(high):(amt)))\<close>, on \<^verbatim>\<open>int\<close>.\<close>

definition constrain :: "c_int \<Rightarrow> c_int \<Rightarrow> c_int \<Rightarrow> c_int" where
  "constrain amt low high = (if amt <s low then low else if high <s amt then high else amt)"

text \<open>Modelled from the spec: the function \<^verbatim>\<open>map\<close> of the Arduino core is not among
  the sources; the spec's "linearly map from [raw_min, raw_max] to [out_min, out_max]
  using the standard proportional formula", as the core writes it on \<^verbatim>\<open>long\<close>,
  \<^verbatim>\<open>(x - in_min) * (out_max - out_min) / (in_max - in_min) + out_min\<close>.\<close>

definition map_long :: "c_long \<Rightarrow> c_long \<Rightarrow> c_long \<Rightarrow> c_long \<Rightarrow> c_long \<Rightarrow> c_long" where
  "map_long x in_min in_max out_min out_max =
     long_div ((x - in_min) * (out_max - out_min)) (in_max - in_min) + out_min"

subsection \<open>Configuration\<close>

datatype pin = A0 | A2

definition FADER1_PIN :: pin where "FADER1_PIN = A0"
definition FADER2_PIN :: pin where "FADER2_PIN = A2"
definition AVG_SIZE :: nat where "AVG_SIZE = 5"
definition DEADZONE :: c_int where "DEADZONE = 3"
definition RAW_ENDZONE :: c_int where "RAW_ENDZONE = 20"
definition SEND_INTERVAL :: c_int where "SEND_INTERVAL = 15"
definition MIDI_CC1 :: c_int where "MIDI_CC1 = 7"
definition MIDI_CC2 :: c_int where "MIDI_CC2 = 8"
definition MIDI_CHANNEL :: c_int where "MIDI_CHANNEL = 1"

definition FADER_COUNT :: nat where "FADER_COUNT = 2"
definition faderPins :: "pin list" where "faderPins = [FADER1_PIN, FADER2_PIN]"
definition midiCC :: "c_int list" where "midiCC = [MIDI_CC1, MIDI_CC2]"

subsection \<open>The USB MIDI transport\<close>

text \<open>Modelled from the spec: the header \<^verbatim>\<open>MIDIUSB.h\<close> is not among the sources; the
  spec's transport is a sink with a send operation, which accepts a 4-byte event (the
  group code, the status byte and two data bytes), and a flush operation. The record has
  the field names of \<^verbatim>\<open>midiEventPacket_t\<close>; the model records the calls made on
  \<^verbatim>\<open>MidiUSB\<close> in order.\<close>

record midiEventPacket_t =
  header :: byte
  byte1 :: byte
  byte2 :: byte
  byte3 :: byte

datatype usb_call = sendMIDI midiEventPacket_t | flush

subsection \<open>Global state\<close>

record state =
  readings :: "c_int list list"
  readIndex :: "c_int list"
  total :: "c_long list"
  lastMidiValue :: "c_int list"
  lastSendTime :: "c_ulong list"
  MidiUSB :: "usb_call list"

text \<open>The globals as their initialisers leave them (\<^verbatim>\<open>readings\<close> has none: zero).\<close>

definition init_state :: state where
  "init_state =
     \<lparr>readings = replicate FADER_COUNT (replicate AVG_SIZE 0),
      readIndex = [0, 0],
      total = [0, 0],
      lastMidiValue = [- 1, - 1],
      lastSendTime = [0, 0],
      MidiUSB = []\<rparr>"

subsection \<open>\<^verbatim>\<open>sendCC\<close>\<close>

text \<open>\<^verbatim>\<open>channel - 1\<close> and the bitwise or are computed on \<^verbatim>\<open>int\<close>, after the
  promotion of \<^verbatim>\<open>channel\<close>, then cast back to \<^verbatim>\<open>byte\<close>.\<close>

definition sendCC :: "byte \<Rightarrow> byte \<Rightarrow> byte \<Rightarrow> state \<Rightarrow> state" where
  "sendCC control val channel st =
     (let event = \<lparr>header = 0x0B,
                   byte1 = int_to_byte (0xB0 OR (byte_to_int channel - 1)),
                   byte2 = control,
                   byte3 = val\<rparr>
      in st\<lparr>MidiUSB := MidiUSB st @ [sendMIDI event, flush]\<rparr>)"

subsection \<open>\<^verbatim>\<open>setup\<close>\<close>

text \<open>\<^verbatim>\<open>analogRead\<close> is an input: in \<^verbatim>\<open>setup\<close>, \<open>rd p i\<close> is what the call for slot
  \<open>i\<close> of the fader on pin \<open>p\<close> returns. \<^verbatim>\<open>pinMode\<close> has no effect on the state.\<close>

definition setup_slot :: "(pin \<Rightarrow> nat \<Rightarrow> c_int) \<Rightarrow> nat \<Rightarrow> nat \<Rightarrow> state \<Rightarrow> state" where
  "setup_slot rd f i st =
     (let row = (readings st ! f)[i := rd (faderPins ! f) i]
      in st\<lparr>readings := (readings st)[f := row],
            total := (total st)[f := total st ! f + int_to_long (row ! i)]\<rparr>)"

definition setup_ino :: "(pin \<Rightarrow> nat \<Rightarrow> c_int) \<Rightarrow> state \<Rightarrow> state" where
  "setup_ino rd st =
     fold (\<lambda>f. fold (setup_slot rd f) [0..<AVG_SIZE]) [0..<FADER_COUNT] st"

subsection \<open>\<^verbatim>\<open>loop\<close>\<close>

text \<open>Lines 45 to 52: the oldest reading leaves the sum, the new one takes its slot and
  joins the sum, the cursor advances. The subscript \<^verbatim>\<open>readIndex[f]\<close> is the only one
  that is not a loop counter: outside the row the behaviour of the C program is
  undefined, which the model returns as \<open>None\<close>.\<close>

definition sample_step :: "nat \<Rightarrow> (pin \<Rightarrow> c_int) \<Rightarrow> state \<Rightarrow> state option" where
  "sample_step f analogRead st =
     (let i = sint (readIndex st ! f) in
      if i < 0 \<or> int AVG_SIZE \<le> i then None
      else
        let k = nat i;
            total1 = total st ! f - int_to_long (readings st ! f ! k);
            row = (readings st ! f)[k := analogRead (faderPins ! f)];
            total2 = total1 + int_to_long (row ! k)
        in Some (st\<lparr>readings := (readings st)[f := row],
                     total := (total st)[f := total2],
                     readIndex := (readIndex st)[f := int_mod (readIndex st ! f + 1) (of_nat AVG_SIZE)]\<rparr>))"

text \<open>Line 55: \<^verbatim>\<open>int avgRaw = total[f] / AVG_SIZE\<close>, a division on \<^verbatim>\<open>long\<close>.\<close>

definition avgRaw :: "nat \<Rightarrow> state \<Rightarrow> c_int" where
  "avgRaw f st = long_to_int (long_div (total st ! f) (of_nat AVG_SIZE))"

text \<open>Lines 58 to 66: the conversion to a MIDI value.\<close>

definition midiValue :: "c_int \<Rightarrow> c_int" where
  "midiValue avg =
     (if avg \<le>s RAW_ENDZONE then 0
      else if 1023 - RAW_ENDZONE \<le>s avg then 127
      else constrain (long_to_int (map_long (int_to_long avg) 0 1023 0 127)) 0 127)"

text \<open>Lines 68 and 69: the condition of the send, on the state after the sampling.\<close>

definition gate :: "nat \<Rightarrow> c_ulong \<Rightarrow> c_int \<Rightarrow> state \<Rightarrow> bool" where
  "gate f now v st \<longleftrightarrow>
     DEADZONE \<le>s abs_macro (v - lastMidiValue st ! f) \<and>
     int_to_long SEND_INTERVAL \<le> now - lastSendTime st ! f"

text \<open>Lines 70 to 72.\<close>

definition emit :: "nat \<Rightarrow> c_ulong \<Rightarrow> c_int \<Rightarrow> state \<Rightarrow> state" where
  "emit f now v st =
     (sendCC (int_to_byte (midiCC ! f)) (int_to_byte v) (int_to_byte MIDI_CHANNEL) st)
       \<lparr>lastMidiValue := (lastMidiValue st)[f := v],
        lastSendTime := (lastSendTime st)[f := now]\<rparr>"

text \<open>One pass of the \<^verbatim>\<open>for\<close> loop of \<^verbatim>\<open>loop\<close>, for fader \<open>f\<close>.\<close>

definition loop_body :: "nat \<Rightarrow> c_ulong \<Rightarrow> (pin \<Rightarrow> c_int) \<Rightarrow> state \<Rightarrow> state option" where
  "loop_body f now analogRead st =
     (case sample_step f analogRead st of
        None \<Rightarrow> None
      | Some st1 \<Rightarrow>
          let v = midiValue (avgRaw f st1)
          in if gate f now v st1 then Some (emit f now v st1) else Some st1)"

text \<open>\<^verbatim>\<open>loop\<close>: \<open>now\<close> is what \<^verbatim>\<open>millis()\<close> returns, \<open>analogRead p\<close> what the one call
  of \<^verbatim>\<open>analogRead\<close> on pin \<open>p\<close> returns in this pass.\<close>

definition loop :: "c_ulong \<Rightarrow> (pin \<Rightarrow> c_int) \<Rightarrow> state \<Rightarrow> state option" where
  "loop now analogRead st =
     fold (\<lambda>f r. Option.bind r (loop_body f now analogRead)) [0..<FADER_COUNT] (Some st)"

text \<open>The sketch: \<^verbatim>\<open>setup\<close> once, then \<^verbatim>\<open>loop\<close> for ever; \<open>run\<close> is a finite prefix.\<close>

fun run :: "(c_ulong \<times> (pin \<Rightarrow> c_int)) list \<Rightarrow> state \<Rightarrow> state option" where
  "run [] st = Some st"
| "run ((now, analogRead) # ticks) st = Option.bind (loop now analogRead st) (run ticks)"

subsection \<open>Vocabulary of the properties\<close>

text \<open>What the C types and the control flow guarantee of the globals: every array has one
  entry per fader, every row of \<^verbatim>\<open>readings\<close> has \<^verbatim>\<open>AVG_SIZE\<close> slots, every cursor
  points into its row, and every running sum is the sum of its row.\<close>

definition valid :: "state \<Rightarrow> bool" where
  "valid st \<longleftrightarrow>
     length (readings st) = FADER_COUNT \<and> length (readIndex st) = FADER_COUNT \<and>
     length (total st) = FADER_COUNT \<and> length (lastMidiValue st) = FADER_COUNT \<and>
     length (lastSendTime st) = FADER_COUNT \<and>
     (\<forall>f < FADER_COUNT.
        length (readings st ! f) = AVG_SIZE \<and>
        0 \<le> sint (readIndex st ! f) \<and> sint (readIndex st ! f) < int AVG_SIZE \<and>
        sint (total st ! f) = (\<Sum>r\<leftarrow>readings st ! f. sint r))"

text \<open>The ring buffer of fader \<open>f\<close> read from its cursor, that is from the oldest reading
  to the newest.\<close>

definition cursor :: "nat \<Rightarrow> state \<Rightarrow> nat" where
  "cursor f st = nat (sint (readIndex st ! f))"

definition window :: "nat \<Rightarrow> state \<Rightarrow> c_int list" where
  "window f st = rotate (cursor f st) (readings st ! f)"

text \<open>Every raw sample of fader \<open>f\<close> in the order read: the \<^verbatim>\<open>AVG_SIZE\<close> reads of
  \<^verbatim>\<open>setup\<close>, then one per pass of \<^verbatim>\<open>loop\<close>.\<close>

definition raw_samples ::
  "nat \<Rightarrow> (pin \<Rightarrow> nat \<Rightarrow> c_int) \<Rightarrow> (c_ulong \<times> (pin \<Rightarrow> c_int)) list \<Rightarrow> c_int list" where
  "raw_samples f rd ticks =
     map (rd (faderPins ! f)) [0..<AVG_SIZE] @
     map (\<lambda>(now, analogRead). analogRead (faderPins ! f)) ticks"

definition most_recent :: "nat \<Rightarrow> 'a list \<Rightarrow> 'a list" where
  "most_recent n xs = drop (length xs - n) xs"

section \<open>Arithmetic of the machine integers\<close>

lemma sint_int_range: "- 32768 \<le> sint (x :: c_int) \<and> sint x < 32768"
  using sint_ge [of x] sint_lt [of x] by simp

lemma sint_long_range: "- 2147483648 \<le> sint (x :: c_long) \<and> sint x < 2147483648"
  using sint_ge [of x] sint_lt [of x] by simp

lemma sint_int_of_int:
  "- 32768 \<le> k \<Longrightarrow> k < 32768 \<Longrightarrow> sint (word_of_int k :: c_int) = k"
  by (simp add: sint_sbintrunc' signed_take_bit_int_eq_self_iff)

lemma sint_long_of_int:
  "- 2147483648 \<le> k \<Longrightarrow> k < 2147483648 \<Longrightarrow> sint (word_of_int k :: c_long) = k"
  by (simp add: sint_sbintrunc' signed_take_bit_int_eq_self_iff)

lemma sint_int_to_long [simp]: "sint (int_to_long x) = sint x"
  unfolding int_to_long_def by (rule sint_up_scast) (simp add: is_up)

lemma long_to_int_eq: "long_to_int x = word_of_int (sint x)"
  unfolding long_to_int_def
  by (simp add: down_cast_same [symmetric] is_down)

lemma sint_long_to_int:
  "- 32768 \<le> sint x \<Longrightarrow> sint x < 32768 \<Longrightarrow> sint (long_to_int x) = sint x"
  unfolding long_to_int_eq by (rule sint_int_of_int)

lemma sdiv_pos: "0 \<le> a \<Longrightarrow> 0 < b \<Longrightarrow> (a::int) sdiv b = a div b"
  by (cases "a = 0") (simp_all add: signed_divide_int_def)

lemma sdiv_neg: "a \<le> 0 \<Longrightarrow> 0 < b \<Longrightarrow> (a::int) sdiv b = - ((- a) div b)"
  by (cases "a = 0") (simp_all add: signed_divide_int_def)

lemma sdiv_5_bounds:
  "(0 \<le> a \<longrightarrow> 0 \<le> a sdiv 5 \<and> a sdiv 5 \<le> a) \<and>
   (a \<le> 0 \<longrightarrow> a \<le> a sdiv 5 \<and> a sdiv 5 \<le> 0)" for a :: int
proof (cases "0 \<le> a")
  case True
  then have "a sdiv 5 = a div 5" by (simp add: sdiv_pos)
  with True show ?thesis by (cases "a = 0") auto
next
  case False
  then have "a sdiv 5 = - ((- a) div 5)" by (simp add: sdiv_neg)
  with False show ?thesis by auto
qed

lemma sint_long_div_5: "sint (long_div a 5) = sint a sdiv 5"
proof -
  have "- 2147483648 \<le> sint a sdiv 5" "sint a sdiv 5 < 2147483648"
    using sdiv_5_bounds [of "sint a"] sint_long_range [of a] by linarith+
  then show ?thesis
    by (simp add: long_div_def sint_long_of_int)
qed

lemma sum_list_sint_bounds:
  "- (32768 * int (length xs)) \<le> (\<Sum>r\<leftarrow>xs. sint (r :: c_int)) \<and>
   (\<Sum>r\<leftarrow>xs. sint r) \<le> 32767 * int (length xs)"
proof (induction xs)
  case Nil
  show ?case by simp
next
  case (Cons x xs)
  with sint_int_range [of x] show ?case by simp
qed

lemma sum_list_map_update:
  "k < length xs \<Longrightarrow>
   (\<Sum>r\<leftarrow>xs[k := v]. g r) = (\<Sum>r\<leftarrow>xs. g r) - g (xs ! k) + (g v :: int)"
proof (induction xs arbitrary: k)
  case Nil
  then show ?case by simp
next
  case (Cons x xs)
  then show ?case by (cases k) simp_all
qed

lemma sint_long_sub_add:
  fixes T :: c_long and old new :: c_int
  assumes "- 163840 \<le> sint T" "sint T \<le> 163835"
  shows "sint (T - int_to_long old + int_to_long new) = sint T - sint old + sint new"
proof -
  have r: "- 32768 \<le> sint old" "sint old < 32768" "- 32768 \<le> sint new" "sint new < 32768"
    using sint_int_range [of old] sint_int_range [of new] by simp_all
  have 1: "sint (T - int_to_long old) = sint T - sint old"
    using assms r by (simp add: sint_word_diff signed_take_bit_int_eq_self_iff)
  show ?thesis
    using assms r by (simp add: sint_word_add 1 signed_take_bit_int_eq_self_iff)
qed

lemma sint_next_index:
  fixes i :: c_int
  assumes "0 \<le> sint i" "sint i < 5"
  shows "sint (int_mod (i + 1) 5) = (sint i + 1) mod 5"
proof -
  have 1: "sint (i + 1) = sint i + 1"
    using assms by (simp add: sint_word_add signed_take_bit_int_eq_self_iff)
  have 2: "(sint i + 1) smod 5 = (sint i + 1) mod 5"
    using assms by (simp add: smod_int_alt_def sdiv_pos minus_mult_div_eq_mod)
  have "0 \<le> (sint i + 1) mod 5" "(sint i + 1) mod 5 < 5" by simp_all
  then show ?thesis
    by (simp add: int_mod_def 1 2 sint_int_of_int)
qed

section \<open>The invariant of the ring buffers\<close>

lemma sample_step_eq:
  assumes "valid st" "f < FADER_COUNT"
  shows "sample_step f ar st =
     Some (st\<lparr>readings := (readings st)
                 [f := (readings st ! f)[nat (sint (readIndex st ! f)) := ar (faderPins ! f)]],
               total := (total st)
                 [f := total st ! f
                       - int_to_long (readings st ! f ! nat (sint (readIndex st ! f)))
                       + int_to_long (ar (faderPins ! f))],
               readIndex := (readIndex st)[f := int_mod (readIndex st ! f + 1) 5]\<rparr>)"
proof -
  from assms have "0 \<le> sint (readIndex st ! f)" "sint (readIndex st ! f) < int AVG_SIZE"
    "length (readings st ! f) = AVG_SIZE"
    by (simp_all add: valid_def)
  then show ?thesis
    by (simp add: sample_step_def Let_def AVG_SIZE_def)
qed

lemma sample_step_valid:
  assumes "valid st" "f < FADER_COUNT" "sample_step f ar st = Some st'"
  shows "valid st'"
proof -
  let ?k = "nat (sint (readIndex st ! f))"
  let ?row = "readings st ! f"
  from assms(1,2) have i: "0 \<le> sint (readIndex st ! f)" "sint (readIndex st ! f) < 5"
    and len: "length ?row = 5" and tot: "sint (total st ! f) = (\<Sum>r\<leftarrow>?row. sint r)"
    by (simp_all add: valid_def AVG_SIZE_def)
  from i len have k: "?k < length ?row" by simp
  have b: "- 163840 \<le> sint (total st ! f)" "sint (total st ! f) \<le> 163835"
    using sum_list_sint_bounds [of ?row] len tot by simp_all
  have t: "sint (total st ! f - int_to_long (?row ! ?k) + int_to_long v)
             = (\<Sum>r\<leftarrow>?row[?k := v]. sint r)" for v
    by (simp add: sint_long_sub_add [OF b] sum_list_map_update [OF k] tot)
  have n: "0 \<le> sint (int_mod (readIndex st ! f + 1) 5)"
          "sint (int_mod (readIndex st ! f + 1) 5) < 5"
    by (simp_all add: sint_next_index [OF i])
  from assms(3) have st': "st' = st\<lparr>readings := (readings st)[f := ?row[?k := ar (faderPins ! f)]],
               total := (total st)
                 [f := total st ! f - int_to_long (?row ! ?k) + int_to_long (ar (faderPins ! f))],
               readIndex := (readIndex st)[f := int_mod (readIndex st ! f + 1) 5]\<rparr>"
    by (simp add: sample_step_eq [OF assms(1,2)])
  show ?thesis
    unfolding valid_def
  proof (intro conjI allI impI)
    fix g assume g: "g < FADER_COUNT"
    show "length (readings st' ! g) = AVG_SIZE"
      using assms(1) g len by (cases "g = f") (simp_all add: st' valid_def AVG_SIZE_def)
    show "0 \<le> sint (readIndex st' ! g)"
      using assms(1) g n by (cases "g = f") (simp_all add: st' valid_def)
    show "sint (readIndex st' ! g) < int AVG_SIZE"
      using assms(1) g n by (cases "g = f") (simp_all add: st' valid_def AVG_SIZE_def)
    show "sint (total st' ! g) = (\<Sum>r\<leftarrow>readings st' ! g. sint r)"
      using assms(1) g t by (cases "g = f") (simp_all add: st' valid_def)
  qed (use assms(1) in \<open>simp_all add: st' valid_def\<close>)
qed

lemma upt_5: "[0..<5] = [0, 1, 2, 3, 4]"
  by (simp add: upt_rec)

lemma upt_2: "[0..<2] = [0, 1]"
  by (simp add: upt_rec)

lemma replicate_5: "replicate 5 x = [x, x, x, x, x]"
  by (simp add: numeral_eq_Suc)

lemma replicate_2: "replicate 2 x = [x, x]"
  by (simp add: numeral_eq_Suc)

lemma list_update_numeral:
  "(x # xs)[numeral n := v] = x # xs[pred_numeral n := v]"
  by (simp add: numeral_eq_Suc)

lemma setup_ino_init:
  "setup_ino rd init_state =
     \<lparr>readings = [map (rd A0) [0, 1, 2, 3, 4], map (rd A2) [0, 1, 2, 3, 4]],
      readIndex = [0, 0],
      total = [int_to_long (rd A0 0) + int_to_long (rd A0 1) + int_to_long (rd A0 2)
                 + int_to_long (rd A0 3) + int_to_long (rd A0 4),
               int_to_long (rd A2 0) + int_to_long (rd A2 1) + int_to_long (rd A2 2)
                 + int_to_long (rd A2 3) + int_to_long (rd A2 4)],
      lastMidiValue = [- 1, - 1],
      lastSendTime = [0, 0],
      MidiUSB = []\<rparr>"
  by (simp add: setup_ino_def setup_slot_def init_state_def FADER_COUNT_def AVG_SIZE_def
      upt_5 upt_2 faderPins_def FADER1_PIN_def FADER2_PIN_def replicate_5 replicate_2
      list_update_numeral)

lemma sint_sum5:
  fixes a b c d e :: c_int
  shows "sint (int_to_long a + int_to_long b + int_to_long c + int_to_long d + int_to_long e)
           = sint a + sint b + sint c + sint d + sint e"
proof -
  note r = sint_int_range [of a] sint_int_range [of b] sint_int_range [of c]
    sint_int_range [of d] sint_int_range [of e]
  have 1: "sint (int_to_long a + int_to_long b) = sint a + sint b"
    using r by (simp add: sint_word_add signed_take_bit_int_eq_self_iff)
  have 2: "sint (int_to_long a + int_to_long b + int_to_long c) = sint a + sint b + sint c"
    using r by (simp add: sint_word_add [of "int_to_long a + int_to_long b"] 1 signed_take_bit_int_eq_self_iff)
  have 3: "sint (int_to_long a + int_to_long b + int_to_long c + int_to_long d)
             = sint a + sint b + sint c + sint d"
    using r by (simp add: sint_word_add [of "int_to_long a + int_to_long b + int_to_long c"] 2 signed_take_bit_int_eq_self_iff)
  show ?thesis
    using r by (simp add: sint_word_add [of "int_to_long a + int_to_long b + int_to_long c + int_to_long d"] 3 signed_take_bit_int_eq_self_iff)
qed

lemma valid_setup: "valid (setup_ino rd init_state)"
  by (simp add: setup_ino_init valid_def FADER_COUNT_def AVG_SIZE_def less_Suc_eq
      numeral_2_eq_2 sint_sum5)

lemma emit_valid: "valid st \<Longrightarrow> valid (emit f now v st)"
  by (simp add: valid_def emit_def sendCC_def)

lemma loop_body_valid:
  assumes "valid st" "f < FADER_COUNT"
  shows "\<exists>st'. loop_body f now ar st = Some st' \<and> valid st'"
proof -
  obtain st1 where 1: "sample_step f ar st = Some st1"
    using sample_step_eq [OF assms] by blast
  then have "valid st1" using assms sample_step_valid by blast
  with 1 show ?thesis
    by (simp add: loop_body_def Let_def emit_valid)
qed

lemma loop_eq:
  "loop now ar st = Option.bind (loop_body 0 now ar st) (loop_body 1 now ar)"
  by (simp add: loop_def FADER_COUNT_def upt_2)

lemma loop_valid:
  assumes "valid st"
  shows "\<exists>st'. loop now ar st = Some st' \<and> valid st'"
proof -
  obtain st1 where 1: "loop_body 0 now ar st = Some st1" "valid st1"
    using loop_body_valid [OF assms, of 0] by (auto simp: FADER_COUNT_def)
  obtain st2 where 2: "loop_body 1 now ar st1 = Some st2" "valid st2"
    using loop_body_valid [OF 1(2), of 1] by (auto simp: FADER_COUNT_def)
  from 1 2 show ?thesis by (simp add: loop_eq)
qed

lemma run_valid:
  "valid st \<Longrightarrow> \<exists>st'. run ticks st = Some st' \<and> valid st'"
proof (induction ticks arbitrary: st)
  case Nil
  then show ?case by simp
next
  case (Cons t ticks)
  obtain now ar where t: "t = (now, ar)" by (cases t)
  obtain st1 where 1: "loop now ar st = Some st1" "valid st1"
    using loop_valid [OF Cons.prems] by blast
  from Cons.IH [OF 1(2)] 1(1) show ?case by (simp add: t)
qed

lemma rotate_update_next:
  assumes "k < length xs"
  shows "rotate (Suc k mod length xs) (xs[k := v]) = tl (rotate k xs) @ [v]"
proof -
  have r: "rotate k xs = drop k xs @ take k xs"
    using assms by (simp add: rotate_drop_take)
  have d: "drop k xs = xs ! k # drop (Suc k) xs"
    using assms by (simp add: Cons_nth_drop_Suc)
  have u: "xs[k := v] = take k xs @ v # drop (Suc k) xs"
    using assms by (simp add: upd_conv_take_nth_drop)
  show ?thesis
  proof (cases "Suc k < length xs")
    case True
    then have "rotate (Suc k mod length xs) (xs[k := v])
        = drop (Suc k) (xs[k := v]) @ take (Suc k) (xs[k := v])"
      by (simp add: rotate_drop_take)
    also have "\<dots> = drop (Suc k) xs @ take k xs @ [v]"
      using assms by (simp add: take_Suc_conv_app_nth)
    finally show ?thesis by (simp add: r d)
  next
    case False
    with assms have e: "Suc k = length xs" by simp
    then have "drop (Suc k) xs = []" by simp
    with e show ?thesis by (simp add: r d u)
  qed
qed

lemma emit_window [simp]: "window g (emit f now v st) = window g st"
  by (simp add: window_def cursor_def emit_def sendCC_def)

lemma sample_step_window:
  assumes "valid st" "f < FADER_COUNT" "g < FADER_COUNT" "sample_step f ar st = Some st'"
  shows "window g st' = (if g = f then tl (window g st) @ [ar (faderPins ! g)] else window g st)"
proof -
  let ?k = "nat (sint (readIndex st ! f))"
  let ?row = "readings st ! f"
  from assms(1,2) have i: "0 \<le> sint (readIndex st ! f)" "sint (readIndex st ! f) < 5"
    and len: "length ?row = 5"
    and lens: "length (readings st) = FADER_COUNT" "length (readIndex st) = FADER_COUNT"
    by (simp_all add: valid_def AVG_SIZE_def)
  from i len have k: "?k < length ?row" by simp
  have c: "nat (sint (int_mod (readIndex st ! f + 1) 5)) = Suc ?k mod length ?row"
    using i by (simp add: sint_next_index [OF i] len nat_mod_distrib nat_add_distrib)
  from assms(4) have st': "readings st' = (readings st)[f := ?row[?k := ar (faderPins ! f)]]"
     "readIndex st' = (readIndex st)[f := int_mod (readIndex st ! f + 1) 5]"
    by (auto simp add: sample_step_eq [OF assms(1,2)])
  show ?thesis
  proof (cases "g = f")
    case True
    then show ?thesis
      using assms(2) lens rotate_update_next [OF k, of "ar (faderPins ! f)"]
      by (simp add: window_def cursor_def st' c)
  next
    case False
    then show ?thesis
      by (simp add: window_def cursor_def st')
  qed
qed

lemma loop_body_window:
  assumes "valid st" "f < FADER_COUNT" "g < FADER_COUNT" "loop_body f now ar st = Some st'"
  shows "window g st' = (if g = f then tl (window g st) @ [ar (faderPins ! g)] else window g st)"
proof -
  obtain st1 where 1: "sample_step f ar st = Some st1"
    using sample_step_eq [OF assms(1,2)] by blast
  have "window g st' = window g st1"
    using assms(4) by (auto simp: loop_body_def 1 Let_def split: if_splits)
  with sample_step_window [OF assms(1-3) 1] show ?thesis by simp
qed

lemma loop_window:
  assumes "valid st" "g < FADER_COUNT" "loop now ar st = Some st'"
  shows "window g st' = tl (window g st) @ [ar (faderPins ! g)]"
proof -
  obtain st1 where 1: "loop_body 0 now ar st = Some st1" "valid st1"
    using loop_body_valid [OF assms(1), of 0] by (auto simp: FADER_COUNT_def)
  with assms(3) have 2: "loop_body 1 now ar st1 = Some st'" by (simp add: loop_eq)
  have f: "(0::nat) < FADER_COUNT" "(1::nat) < FADER_COUNT" by (simp_all add: FADER_COUNT_def)
  from assms(2) have "g = 0 \<or> g = 1" by (auto simp: FADER_COUNT_def)
  then show ?thesis
    using loop_body_window [OF assms(1) f(1) assms(2) 1(1)]
      loop_body_window [OF 1(2) f(2) assms(2) 2]
    by auto
qed

lemma window_length: "valid st \<Longrightarrow> g < FADER_COUNT \<Longrightarrow> length (window g st) = AVG_SIZE"
  by (simp add: window_def valid_def)

lemma run_window:
  "valid st \<Longrightarrow> g < FADER_COUNT \<Longrightarrow> run ticks st = Some st' \<Longrightarrow>
   window g st' = drop (length ticks)
      (window g st @ map (\<lambda>(now, analogRead). analogRead (faderPins ! g)) ticks)"
proof (induction ticks arbitrary: st)
  case Nil
  then show ?case by simp
next
  case (Cons t ticks)
  obtain now ar where t: "t = (now, ar)" by (cases t)
  obtain st1 where 1: "loop now ar st = Some st1" "valid st1"
    using loop_valid [OF Cons.prems(1)] by blast
  with Cons.prems(3) have 2: "run ticks st1 = Some st'" by (simp add: t)
  have w: "window g st1 = tl (window g st) @ [ar (faderPins ! g)]"
    by (rule loop_window [OF Cons.prems(1,2) 1(1)])
  have "length (window g st) = 5"
    using window_length [OF Cons.prems(1,2)] by (simp add: AVG_SIZE_def)
  then obtain x xs where x: "window g st = x # xs" by (cases "window g st") auto
  from Cons.IH [OF 1(2) Cons.prems(2) 2] show ?case
    by (simp add: w x t)
qed

lemma window_setup:
  "g < FADER_COUNT \<Longrightarrow> window g (setup_ino rd init_state) = map (rd (faderPins ! g)) [0..<AVG_SIZE]"
  by (auto simp add: setup_ino_init window_def cursor_def FADER_COUNT_def AVG_SIZE_def upt_5 less_Suc_eq
      numeral_2_eq_2 faderPins_def FADER1_PIN_def FADER2_PIN_def)

section \<open>The running sum and the ring buffer\<close>

lemma length_raw_samples: "length (raw_samples f rd ticks) = AVG_SIZE + length ticks"
  by (simp add: raw_samples_def)

lemma most_recent_raw_samples:
  "most_recent AVG_SIZE (raw_samples f rd ticks) = drop (length ticks) (raw_samples f rd ticks)"
  by (simp add: most_recent_def length_raw_samples)

lemma mset_rotate_eq: "mset (rotate n xs) = mset xs"
proof -
  let ?k = "n mod length xs"
  have "mset (rotate n xs) = mset (drop ?k xs) + mset (take ?k xs)"
    by (simp add: rotate_drop_take)
  also have "\<dots> = mset (take ?k xs) + mset (drop ?k xs)"
    by (rule add.commute)
  also have "\<dots> = mset (take ?k xs @ drop ?k xs)"
    by (rule mset_append [symmetric])
  finally show ?thesis by (simp only: append_take_drop_id)
qed

lemma mset_window: "mset (window f st) = mset (readings st ! f)"
  by (simp add: window_def mset_rotate_eq)

text \<open>
  Claim C2. For every fader and every sequence of passes of \<^verbatim>\<open>loop\<close> after \<^verbatim>\<open>setup\<close>, the
  sketch runs without leaving its arrays, the row of the fader holds \<^verbatim>\<open>AVG_SIZE\<close> = 5
  readings, and \<^verbatim>\<open>total[f]\<close> is the exact sum of these five readings, with no wrap-around:
  the sum is that of the signed values. The five readings are the five most recent raw
  samples of the fader: read from the cursor they are these samples in the order read.
  The empty sequence of passes is the state that \<^verbatim>\<open>setup\<close> leaves.
\<close>

theorem running_sum_is_buffer_sum:
  assumes "f < FADER_COUNT"
  shows "\<exists>st. run ticks (setup_ino rd init_state) = Some st
           \<and> length (readings st ! f) = AVG_SIZE
           \<and> sint (total st ! f) = (\<Sum>r\<leftarrow>readings st ! f. sint r)
           \<and> window f st = most_recent AVG_SIZE (raw_samples f rd ticks)
           \<and> mset (readings st ! f) = mset (most_recent AVG_SIZE (raw_samples f rd ticks))"
proof -
  obtain st where st: "run ticks (setup_ino rd init_state) = Some st" "valid st"
    using run_valid [OF valid_setup] by blast
  have "window f st = drop (length ticks) (raw_samples f rd ticks)"
    using run_window [OF valid_setup assms st(1)]
    by (simp only: window_setup [OF assms] raw_samples_def)
  then have w: "window f st = most_recent AVG_SIZE (raw_samples f rd ticks)"
    by (simp only: most_recent_raw_samples)
  have "mset (readings st ! f) = mset (most_recent AVG_SIZE (raw_samples f rd ticks))"
    using w mset_window [of f st] by simp
  with st w assms show ?thesis
    by (simp add: valid_def)
qed

theorem running_sum_is_buffer_sum_witness:
  "(1::nat) < FADER_COUNT \<and>
   (\<exists>st. run [(15, \<lambda>p. 700), (16, \<lambda>p. 712)] (setup_ino (\<lambda>p i. 1023) init_state) = Some st
      \<and> length (readings st ! 1) = AVG_SIZE
      \<and> sint (total st ! 1) = (\<Sum>r\<leftarrow>readings st ! 1. sint r)
      \<and> window 1 st = [1023, 1023, 1023, 700, 712]
      \<and> mset (readings st ! 1) = mset [1023, 1023, 1023, 700, 712])"
proof -
  have h: "(1::nat) < FADER_COUNT" by (simp add: FADER_COUNT_def)
  have "most_recent AVG_SIZE (raw_samples 1 (\<lambda>p i. 1023) [(15, \<lambda>p. 700), (16 :: c_ulong, \<lambda>p. 712)])
          = [1023, 1023, 1023, 700, 712 :: c_int]"
    by (simp add: most_recent_def raw_samples_def AVG_SIZE_def upt_5)
  with h running_sum_is_buffer_sum [OF h, of "[(15, \<lambda>p. 700), (16, \<lambda>p. 712)]" "\<lambda>p i. 1023"]
  show ?thesis by simp
qed

section \<open>The conversion to a MIDI value\<close>

lemma sdiv_1023_bounds:
  "(0 \<le> a \<longrightarrow> 0 \<le> a sdiv 1023 \<and> a sdiv 1023 \<le> a) \<and>
   (a \<le> 0 \<longrightarrow> a \<le> a sdiv 1023 \<and> a sdiv 1023 \<le> 0)" for a :: int
proof (cases "0 \<le> a")
  case True
  then have "a sdiv 1023 = a div 1023" by (simp add: sdiv_pos)
  with True show ?thesis by (cases "a = 0") auto
next
  case False
  then have "a sdiv 1023 = - ((- a) div 1023)" by (simp add: sdiv_neg)
  with False show ?thesis by auto
qed

lemma sint_map_long_raw:
  "sint (map_long (int_to_long avg) 0 1023 0 127) = (sint avg * 127) sdiv 1023"
proof -
  have r: "- 32768 \<le> sint avg" "sint avg < 32768"
    using sint_int_range [of avg] by simp_all
  have m: "sint (int_to_long avg * 127) = sint avg * 127"
    using r by (simp add: sint_word_mult signed_take_bit_int_eq_self_iff)
  have "- 2147483648 \<le> (sint avg * 127) sdiv 1023" "(sint avg * 127) sdiv 1023 < 2147483648"
    using sdiv_1023_bounds [of "sint avg * 127"] r by linarith+
  then show ?thesis
    by (simp add: map_long_def long_div_def m sint_long_of_int)
qed

lemma sint_map_raw:
  "sint (long_to_int (map_long (int_to_long avg) 0 1023 0 127)) = (sint avg * 127) sdiv 1023"
proof -
  have r: "- 32768 \<le> sint avg" "sint avg < 32768"
    using sint_int_range [of avg] by simp_all
  have "- 32768 \<le> (sint avg * 127) sdiv 1023" "(sint avg * 127) sdiv 1023 < 32768"
    using sdiv_1023_bounds [of "sint avg * 127"] r
    by (cases "0 \<le> sint avg"; simp add: sdiv_pos sdiv_neg; linarith)+
  then show ?thesis
    by (simp add: sint_long_to_int sint_map_long_raw)
qed

lemma sint_constrain_0_127:
  "sint (constrain x 0 127) = (if sint x < 0 then 0 else if 127 < sint x then 127 else sint x)"
  by (simp add: constrain_def word_sless_alt)

lemma sint_midiValue:
  "sint (midiValue avg) =
     (if sint avg \<le> 20 then 0
      else if 1003 \<le> sint avg then 127
      else (sint avg * 127) div 1023)"
proof -
  consider "sint avg \<le> 20" | "1003 \<le> sint avg" | "20 < sint avg" "sint avg < 1003"
    by linarith
  then show ?thesis
  proof cases
    case 1
    then show ?thesis by (simp add: midiValue_def RAW_ENDZONE_def word_sle_eq)
  next
    case 2
    then show ?thesis by (simp add: midiValue_def RAW_ENDZONE_def word_sle_eq)
  next
    case 3
    have q: "(sint avg * 127) sdiv 1023 = (sint avg * 127) div 1023"
      using 3 by (simp add: sdiv_pos)
    have "0 \<le> (sint avg * 127) div 1023" "(sint avg * 127) div 1023 \<le> 127"
      using 3 by linarith+
    then have "sint (constrain (long_to_int (map_long (int_to_long avg) 0 1023 0 127)) 0 127)
                 = (sint avg * 127) div 1023"
      by (simp add: sint_constrain_0_127 sint_map_raw q)
    with 3 show ?thesis by (simp add: midiValue_def RAW_ENDZONE_def word_sle_eq)
  qed
qed

lemma midiValue_range: "0 \<le> sint (midiValue avg) \<and> sint (midiValue avg) \<le> 127"
proof -
  have "0 \<le> (sint avg * 127) div 1023" if "20 < sint avg"
    using that by (simp add: pos_imp_zdiv_nonneg_iff)
  moreover have "(sint avg * 127) div 1023 \<le> 127" if "sint avg < 1003"
    using that by linarith
  ultimately show ?thesis
    by (simp add: sint_midiValue)
qed

section \<open>Bytes\<close>

lemma uint_of_sint_nonneg: "0 \<le> sint (v :: c_int) \<Longrightarrow> uint v = sint v"
proof -
  assume a: "0 \<le> sint v"
  have "sint v < 65536" using sint_int_range [of v] by simp
  with a have "take_bit 16 (sint v) = sint v" by (simp add: take_bit_int_eq_self)
  then show ?thesis by (simp add: uint_sint)
qed

lemma uint_int_to_byte:
  assumes "0 \<le> sint v" "sint v < 256"
  shows "uint (int_to_byte v) = sint v"
proof -
  have "uint (int_to_byte v) = take_bit 8 (uint v)"
    by (simp add: int_to_byte_def unsigned_ucast_eq)
  also have "\<dots> = sint v"
    using assms by (simp add: uint_of_sint_nonneg take_bit_int_eq_self)
  finally show ?thesis .
qed

lemma int_to_byte_wi: "int_to_byte (word_of_int k) = word_of_int k"
  unfolding int_to_byte_def by transfer simp

lemma int_to_byte_or: "int_to_byte (a OR b) = int_to_byte a OR int_to_byte b"
  unfolding int_to_byte_def
  by (rule bit_word_eqI) (auto simp add: bit_simps)

lemma int_to_byte_sub: "int_to_byte (a - b) = int_to_byte a - int_to_byte b"
proof -
  have "int_to_byte (a - b) = int_to_byte (word_of_int (uint a - uint b))"
    by simp
  also have "\<dots> = word_of_int (uint a) - word_of_int (uint b)"
    by (simp only: int_to_byte_wi wi_hom_sub)
  also have "\<dots> = int_to_byte (word_of_int (uint a)) - int_to_byte (word_of_int (uint b))"
    by (simp only: int_to_byte_wi)
  finally show ?thesis by simp
qed

lemma int_to_byte_byte_to_int: "int_to_byte (byte_to_int c) = c"
  unfolding int_to_byte_def byte_to_int_def
  by (rule bit_word_eqI) (auto simp add: bit_simps)

lemma int_to_byte_numeral: "int_to_byte (numeral n) = numeral n"
  using int_to_byte_wi [of "numeral n"] by simp

lemma int_to_byte_1: "int_to_byte 1 = 1"
  using int_to_byte_wi [of 1] by simp

lemma status_byte:
  "int_to_byte (0xB0 OR (byte_to_int channel - 1)) = 0xB0 OR (channel - 1)"
  by (simp add: int_to_byte_or int_to_byte_sub int_to_byte_byte_to_int int_to_byte_numeral
      int_to_byte_1)

section \<open>The condition of the send\<close>

lemma sint_int_sub:
  fixes a b :: c_int
  assumes "- 32768 \<le> sint a - sint b" "sint a - sint b < 32768"
  shows "sint (a - b) = sint a - sint b"
  using assms by (simp add: sint_word_diff signed_take_bit_int_eq_self_iff)

lemma sint_abs_macro:
  fixes x :: c_int
  assumes "- 32768 < sint x"
  shows "sint (abs_macro x) = \<bar>sint x\<bar>"
proof (cases "0 < sint x")
  case True
  then show ?thesis by (simp add: abs_macro_def word_sless_alt)
next
  case False
  have "sint (- x) = - sint x"
    using assms sint_int_range [of x]
    by (simp add: sint_word_minus signed_take_bit_int_eq_self_iff)
  with False show ?thesis by (simp add: abs_macro_def word_sless_alt)
qed

lemma deadzone_test:
  fixes v last :: c_int
  assumes "- 32768 < sint v - sint last" "sint v - sint last < 32768"
  shows "DEADZONE \<le>s abs_macro (v - last) \<longleftrightarrow> 3 \<le> \<bar>sint v - sint last\<bar>"
proof -
  have "sint (v - last) = sint v - sint last"
    using assms by (simp add: sint_int_sub)
  with assms show ?thesis
    by (simp add: word_sle_eq DEADZONE_def sint_abs_macro)
qed

lemma interval_test:
  "int_to_long SEND_INTERVAL \<le> elapsed \<longleftrightarrow> 15 \<le> unat elapsed"
  by (simp add: int_to_long_def SEND_INTERVAL_def word_le_nat_alt)

lemma sample_step_frame:
  assumes "sample_step f ar st = Some st1"
  shows "lastMidiValue st1 = lastMidiValue st" "lastSendTime st1 = lastSendTime st"
    "MidiUSB st1 = MidiUSB st"
    "st1 = st\<lparr>readings := readings st1, total := total st1, readIndex := readIndex st1\<rparr>"
    "readings st1 = (readings st)[f := readings st1 ! f]"
    "total st1 = (total st)[f := total st1 ! f]"
    "readIndex st1 = (readIndex st)[f := readIndex st1 ! f]"
proof -
  let ?k = "nat (sint (readIndex st ! f))"
  from assms have st1: "st1 = st\<lparr>readings := (readings st)[f := (readings st ! f)[?k := ar (faderPins ! f)]],
      total := (total st)[f := total st ! f - int_to_long (readings st ! f ! ?k)
                 + int_to_long ((readings st ! f)[?k := ar (faderPins ! f)] ! ?k)],
      readIndex := (readIndex st)[f := int_mod (readIndex st ! f + 1) (of_nat AVG_SIZE)]\<rparr>"
    by (simp add: sample_step_def Let_def split: if_splits)
  show "lastMidiValue st1 = lastMidiValue st" "lastSendTime st1 = lastSendTime st"
    "MidiUSB st1 = MidiUSB st"
    "st1 = st\<lparr>readings := readings st1, total := total st1, readIndex := readIndex st1\<rparr>"
    by (simp_all add: st1)
  have upd: "xs[f := y] = xs[f := xs[f := y] ! f]" for xs :: "'b list" and y
    by (cases "f < length xs") (simp_all add: list_update_beyond)
  show "readings st1 = (readings st)[f := readings st1 ! f]"
    "total st1 = (total st)[f := total st1 ! f]"
    "readIndex st1 = (readIndex st)[f := readIndex st1 ! f]"
    using upd by (simp_all add: st1)
qed

lemma loop_body_cases:
  assumes "sample_step f ar st = Some st1"
  shows "loop_body f now ar st =
           (if gate f now (midiValue (avgRaw f st1)) st1
            then Some (emit f now (midiValue (avgRaw f st1)) st1) else Some st1)"
  using assms by (simp add: loop_body_def Let_def)

section \<open>Endpoint snapping, monotonicity and range of the conversion\<close>

text \<open>
  Claim C3. Whenever the average is at most the endzone threshold \<^verbatim>\<open>RAW_ENDZONE\<close> = 20, the
  output value is 0, the minimum of the output range; whenever it is at least
  1023 - \<^verbatim>\<open>RAW_ENDZONE\<close> = 1003, the output value is 127, the maximum. This holds for every
  value of the \<^verbatim>\<open>int\<close> \<^verbatim>\<open>avgRaw\<close>, also a negative one or one above 1023.
\<close>

theorem endpoint_snapping:
  "(sint avg \<le> sint RAW_ENDZONE \<longrightarrow> midiValue avg = 0) \<and>
   (1023 - sint RAW_ENDZONE \<le> sint avg \<longrightarrow> midiValue avg = 127)"
  by (simp add: midiValue_def RAW_ENDZONE_def word_sle_eq)

theorem endpoint_snapping_witness:
  "sint (20 :: c_int) \<le> sint RAW_ENDZONE \<and> midiValue 20 = 0 \<and>
   1023 - sint RAW_ENDZONE \<le> sint (1003 :: c_int) \<and> midiValue 1003 = 127"
  using endpoint_snapping [of 20] endpoint_snapping [of 1003]
  by (simp add: RAW_ENDZONE_def)

text \<open>
  Claim C6. For two averages \<open>a1 < a2\<close>, both strictly between the endzone boundaries 20 and
  1003, \<^verbatim>\<open>loop\<close> takes its third branch, \<^verbatim>\<open>map\<close> followed by \<^verbatim>\<open>constrain\<close>, and the output
  for \<open>a1\<close> is at most the output for \<open>a2\<close>.
\<close>

theorem mapping_monotone:
  assumes "sint RAW_ENDZONE < sint a1" "sint a1 < sint a2" "sint a2 < 1023 - sint RAW_ENDZONE"
  shows "midiValue a1 = constrain (long_to_int (map_long (int_to_long a1) 0 1023 0 127)) 0 127
       \<and> midiValue a2 = constrain (long_to_int (map_long (int_to_long a2) 0 1023 0 127)) 0 127
       \<and> midiValue a1 \<le>s midiValue a2"
proof -
  from assms have r: "20 < sint a1" "sint a1 < 1003" "20 < sint a2" "sint a2 < 1003"
    by (simp_all add: RAW_ENDZONE_def)
  have "sint a1 * 127 div 1023 \<le> sint a2 * 127 div 1023"
    using assms(2) by (intro zdiv_mono1) simp_all
  with r have "midiValue a1 \<le>s midiValue a2"
    by (simp add: word_sle_eq sint_midiValue)
  with r show ?thesis
    by (simp add: midiValue_def RAW_ENDZONE_def word_sle_eq)
qed

theorem mapping_monotone_witness:
  "sint RAW_ENDZONE < sint (500 :: c_int) \<and> sint (500 :: c_int) < sint (520 :: c_int) \<and>
   sint (520 :: c_int) < 1023 - sint RAW_ENDZONE \<and>
   midiValue 500 = 62 \<and> midiValue 520 = 64 \<and> midiValue 500 \<le>s midiValue 520"
proof -
  have h: "sint RAW_ENDZONE < sint (500 :: c_int)" "sint (500 :: c_int) < sint (520 :: c_int)"
    "sint (520 :: c_int) < 1023 - sint RAW_ENDZONE"
    by (simp_all add: RAW_ENDZONE_def)
  have e: "midiValue 500 = 62" "midiValue 520 = 64" by code_simp+
  from mapping_monotone [OF h] h e show ?thesis by simp
qed

text \<open>
  Claim C10. For an average in the raw range 0 to 1023 the output value lies between 0 and
  127, whichever branch computes it. The value of \<^verbatim>\<open>map\<close> is itself between 0 and 127, so
  that \<^verbatim>\<open>constrain\<close> returns it unchanged, and the conversion of the output value to the
  \<^verbatim>\<open>byte\<close> parameter of \<^verbatim>\<open>sendCC\<close> keeps the value.
\<close>

theorem output_fits_byte:
  assumes "0 \<le> sint avg" "sint avg \<le> 1023"
  shows "0 \<le> sint (midiValue avg) \<and> sint (midiValue avg) \<le> 127
       \<and> 0 \<le> sint (long_to_int (map_long (int_to_long avg) 0 1023 0 127))
       \<and> sint (long_to_int (map_long (int_to_long avg) 0 1023 0 127)) \<le> 127
       \<and> constrain (long_to_int (map_long (int_to_long avg) 0 1023 0 127)) 0 127
           = long_to_int (map_long (int_to_long avg) 0 1023 0 127)
       \<and> uint (int_to_byte (midiValue avg)) = sint (midiValue avg)"
proof -
  have q: "(sint avg * 127) sdiv 1023 = (sint avg * 127) div 1023"
    using assms by (simp add: sdiv_pos)
  have b: "0 \<le> (sint avg * 127) div 1023" "(sint avg * 127) div 1023 \<le> 127"
    using assms by linarith+
  then have m: "0 \<le> sint (long_to_int (map_long (int_to_long avg) 0 1023 0 127))"
    "sint (long_to_int (map_long (int_to_long avg) 0 1023 0 127)) \<le> 127"
    by (simp_all add: sint_map_raw q)
  then have c: "constrain (long_to_int (map_long (int_to_long avg) 0 1023 0 127)) 0 127
           = long_to_int (map_long (int_to_long avg) 0 1023 0 127)"
    by (simp add: constrain_def word_sless_alt)
  have "uint (int_to_byte (midiValue avg)) = sint (midiValue avg)"
    using midiValue_range [of avg] by (intro uint_int_to_byte) simp_all
  with m c midiValue_range [of avg] show ?thesis by simp
qed

theorem output_fits_byte_witness:
  "0 \<le> sint (512 :: c_int) \<and> sint (512 :: c_int) \<le> 1023
   \<and> sint (midiValue 512) = 63
   \<and> sint (long_to_int (map_long (int_to_long 512) 0 1023 0 127)) = 63
   \<and> constrain (long_to_int (map_long (int_to_long 512) 0 1023 0 127)) 0 127
       = long_to_int (map_long (int_to_long 512) 0 1023 0 127)
   \<and> uint (int_to_byte (midiValue 512)) = 63"
proof -
  have h: "0 \<le> sint (512 :: c_int)" "sint (512 :: c_int) \<le> 1023" by simp_all
  have e: "midiValue 512 = 63" "long_to_int (map_long (int_to_long 512) 0 1023 0 127) = 63"
    by code_simp+
  from output_fits_byte [OF h] h e show ?thesis by simp
qed

section \<open>Gating of the send\<close>

text \<open>
  Claim C4. In the pass of \<^verbatim>\<open>loop\<close> for fader \<open>f\<close>, let \<open>st1\<close> be the state after the sampling
  of lines 45 to 52. If the output value computed from it differs from
  \<^verbatim>\<open>lastMidiValue[f]\<close> by less than \<^verbatim>\<open>DEADZONE\<close> = 3 in absolute value, the pass ends in
  \<open>st1\<close>: nothing is handed to \<^verbatim>\<open>MidiUSB\<close>, whatever \<^verbatim>\<open>millis()\<close> returned.
\<close>

theorem deadzone_suppression:
  assumes "sample_step f analogRead st = Some st1"
    and "\<bar>sint (midiValue (avgRaw f st1)) - sint (lastMidiValue st ! f)\<bar> < sint DEADZONE"
  shows "loop_body f now analogRead st = Some st1 \<and> MidiUSB st1 = MidiUSB st"
proof -
  let ?v = "midiValue (avgRaw f st1)"
  have l: "lastMidiValue st1 = lastMidiValue st"
    by (rule sample_step_frame(1) [OF assms(1)])
  from assms(2) have d: "\<bar>sint ?v - sint (lastMidiValue st ! f)\<bar> < 3"
    by (simp add: DEADZONE_def)
  then have "- 32768 < sint ?v - sint (lastMidiValue st ! f)"
    "sint ?v - sint (lastMidiValue st ! f) < 32768"
    by linarith+
  from deadzone_test [OF this] d have "\<not> DEADZONE \<le>s abs_macro (?v - lastMidiValue st ! f)"
    by simp
  then have "\<not> gate f now ?v st1"
    by (simp add: gate_def l)
  then show ?thesis
    by (simp add: loop_body_cases [OF assms(1)] sample_step_frame(3) [OF assms(1)])
qed

theorem deadzone_suppression_witness:
  "sample_step 1 (\<lambda>p. 520) (the (run [(20, \<lambda>p. 512)] (setup_ino (\<lambda>p i. 512) init_state)))
     = Some \<lparr>readings = [[512, 512, 512, 512, 512], [512, 520, 512, 512, 512]],
             readIndex = [1, 2], total = [2560, 2568], lastMidiValue = [63, 63],
             lastSendTime = [20, 20],
             MidiUSB = [sendMIDI \<lparr>header = 11, byte1 = 176, byte2 = 7, byte3 = 63\<rparr>, flush,
                        sendMIDI \<lparr>header = 11, byte1 = 176, byte2 = 8, byte3 = 63\<rparr>, flush]\<rparr>
   \<and> loop_body 1 100000 (\<lambda>p. 520) (the (run [(20, \<lambda>p. 512)] (setup_ino (\<lambda>p i. 512) init_state)))
     = Some \<lparr>readings = [[512, 512, 512, 512, 512], [512, 520, 512, 512, 512]],
             readIndex = [1, 2], total = [2560, 2568], lastMidiValue = [63, 63],
             lastSendTime = [20, 20],
             MidiUSB = [sendMIDI \<lparr>header = 11, byte1 = 176, byte2 = 7, byte3 = 63\<rparr>, flush,
                        sendMIDI \<lparr>header = 11, byte1 = 176, byte2 = 8, byte3 = 63\<rparr>, flush]\<rparr>"
proof -
  let ?st = "the (run [(20, \<lambda>p. 512)] (setup_ino (\<lambda>p i. 512) init_state))"
  let ?st1 = "\<lparr>readings = [[512, 512, 512, 512, 512], [512, 520, 512, 512, 512]],
             readIndex = [1, 2], total = [2560, 2568], lastMidiValue = [63, 63],
             lastSendTime = [20, 20],
             MidiUSB = [sendMIDI \<lparr>header = 11, byte1 = 176, byte2 = 7, byte3 = 63\<rparr>, flush,
                        sendMIDI \<lparr>header = 11, byte1 = 176, byte2 = 8, byte3 = 63\<rparr>, flush]\<rparr>"
  have h1: "sample_step 1 (\<lambda>p. 520) ?st = Some ?st1"
    by code_simp
  have h2: "\<bar>sint (midiValue (avgRaw 1 ?st1)) - sint (lastMidiValue ?st ! 1)\<bar> < sint DEADZONE"
    by code_simp
  from deadzone_suppression [OF h1 h2, of 100000] h1 show ?thesis by simp
qed

text \<open>
  Claim C5. In the pass of \<^verbatim>\<open>loop\<close> for fader \<open>f\<close>, if \<^verbatim>\<open>now - lastSendTime[f]\<close>, the
  subtraction of \<^verbatim>\<open>unsigned long\<close> that line 69 computes, is less than \<^verbatim>\<open>SEND_INTERVAL\<close> = 15,
  the pass ends in the state \<open>st1\<close> that the sampling leaves: nothing is handed to
  \<^verbatim>\<open>MidiUSB\<close>, whatever the output value and the last value sent are.
\<close>

theorem rate_limiting:
  assumes "sample_step f analogRead st = Some st1"
    and "now - lastSendTime st ! f < int_to_long SEND_INTERVAL"
  shows "loop_body f now analogRead st = Some st1 \<and> MidiUSB st1 = MidiUSB st"
proof -
  have "\<not> gate f now (midiValue (avgRaw f st1)) st1"
    using assms(2) by (simp add: gate_def sample_step_frame(2) [OF assms(1)] not_le)
  then show ?thesis
    by (simp add: loop_body_cases [OF assms(1)] sample_step_frame(3) [OF assms(1)])
qed

theorem rate_limiting_witness:
  "sample_step 0 (\<lambda>p. 0) (the (run [(100, \<lambda>p. 1023)] (setup_ino (\<lambda>p i. 1023) init_state)))
     = Some \<lparr>readings = [[1023, 0, 1023, 1023, 1023], [1023, 1023, 1023, 1023, 1023]],
             readIndex = [2, 1], total = [4092, 5115], lastMidiValue = [127, 127],
             lastSendTime = [100, 100],
             MidiUSB = [sendMIDI \<lparr>header = 11, byte1 = 176, byte2 = 7, byte3 = 127\<rparr>, flush,
                        sendMIDI \<lparr>header = 11, byte1 = 176, byte2 = 8, byte3 = 127\<rparr>, flush]\<rparr>
   \<and> midiValue (avgRaw 0 \<lparr>readings = [[1023, 0, 1023, 1023, 1023], [1023, 1023, 1023, 1023, 1023]],
             readIndex = [2, 1], total = [4092, 5115], lastMidiValue = [127, 127],
             lastSendTime = [100, 100],
             MidiUSB = [sendMIDI \<lparr>header = 11, byte1 = 176, byte2 = 7, byte3 = 127\<rparr>, flush,
                        sendMIDI \<lparr>header = 11, byte1 = 176, byte2 = 8, byte3 = 127\<rparr>, flush]\<rparr>) = 101
   \<and> (114 :: c_ulong) - lastSendTime (the (run [(100, \<lambda>p. 1023)] (setup_ino (\<lambda>p i. 1023) init_state))) ! 0
        < int_to_long SEND_INTERVAL
   \<and> loop_body 0 114 (\<lambda>p. 0) (the (run [(100, \<lambda>p. 1023)] (setup_ino (\<lambda>p i. 1023) init_state)))
     = Some \<lparr>readings = [[1023, 0, 1023, 1023, 1023], [1023, 1023, 1023, 1023, 1023]],
             readIndex = [2, 1], total = [4092, 5115], lastMidiValue = [127, 127],
             lastSendTime = [100, 100],
             MidiUSB = [sendMIDI \<lparr>header = 11, byte1 = 176, byte2 = 7, byte3 = 127\<rparr>, flush,
                        sendMIDI \<lparr>header = 11, byte1 = 176, byte2 = 8, byte3 = 127\<rparr>, flush]\<rparr>"
proof -
  let ?st = "the (run [(100, \<lambda>p. 1023)] (setup_ino (\<lambda>p i. 1023) init_state))"
  let ?st1 = "\<lparr>readings = [[1023, 0, 1023, 1023, 1023], [1023, 1023, 1023, 1023, 1023]],
             readIndex = [2, 1], total = [4092, 5115], lastMidiValue = [127, 127],
             lastSendTime = [100, 100],
             MidiUSB = [sendMIDI \<lparr>header = 11, byte1 = 176, byte2 = 7, byte3 = 127\<rparr>, flush,
                        sendMIDI \<lparr>header = 11, byte1 = 176, byte2 = 8, byte3 = 127\<rparr>, flush]\<rparr>"
  have h1: "sample_step 0 (\<lambda>p. 0) ?st = Some ?st1"
    by code_simp
  have h2: "(114 :: c_ulong) - lastSendTime ?st ! 0 < int_to_long SEND_INTERVAL"
    by code_simp
  have e: "midiValue (avgRaw 0 ?st1) = 101"
    by code_simp
  from rate_limiting [OF h1 h2] h1 h2 e show ?thesis by simp
qed

section \<open>What a pass without a send changes\<close>

text \<open>
  Claim C8. In the pass of \<^verbatim>\<open>loop\<close> for fader \<open>f\<close>, if the condition of lines 68 and 69
  fails (the deadzone test or the interval test is false), the pass ends in the state
  \<open>st1\<close> that the sampling leaves. In it \<^verbatim>\<open>lastMidiValue\<close>, \<^verbatim>\<open>lastSendTime\<close> and the calls
  made on \<^verbatim>\<open>MidiUSB\<close> are those of before the pass; only \<^verbatim>\<open>readings\<close>, \<^verbatim>\<open>total\<close> and
  \<^verbatim>\<open>readIndex\<close> can differ, and each of them only in the entry of fader \<open>f\<close>.
\<close>

theorem no_send_frame:
  assumes "sample_step f analogRead st = Some st1"
    and "\<not> gate f now (midiValue (avgRaw f st1)) st1"
  shows "loop_body f now analogRead st = Some st1
       \<and> lastMidiValue st1 = lastMidiValue st
       \<and> lastSendTime st1 = lastSendTime st
       \<and> MidiUSB st1 = MidiUSB st
       \<and> st1 = st\<lparr>readings := readings st1, total := total st1, readIndex := readIndex st1\<rparr>
       \<and> readings st1 = (readings st)[f := readings st1 ! f]
       \<and> total st1 = (total st)[f := total st1 ! f]
       \<and> readIndex st1 = (readIndex st)[f := readIndex st1 ! f]"
  using assms(2) sample_step_frame [OF assms(1)]
  by (simp add: loop_body_cases [OF assms(1)])

theorem no_send_frame_witness:
  "sample_step 1 (\<lambda>p. 300) (setup_ino (\<lambda>p i. 300) init_state)
     = Some \<lparr>readings = [[300, 300, 300, 300, 300], [300, 300, 300, 300, 300]],
             readIndex = [0, 1], total = [1500, 1500], lastMidiValue = [- 1, - 1],
             lastSendTime = [0, 0], MidiUSB = []\<rparr>
   \<and> \<not> gate 1 3 (midiValue (avgRaw 1 \<lparr>readings = [[300, 300, 300, 300, 300], [300, 300, 300, 300, 300]],
             readIndex = [0, 1], total = [1500, 1500], lastMidiValue = [- 1, - 1],
             lastSendTime = [0, 0], MidiUSB = []\<rparr>))
          \<lparr>readings = [[300, 300, 300, 300, 300], [300, 300, 300, 300, 300]],
             readIndex = [0, 1], total = [1500, 1500], lastMidiValue = [- 1, - 1],
             lastSendTime = [0, 0], MidiUSB = []\<rparr>
   \<and> loop_body 1 3 (\<lambda>p. 300) (setup_ino (\<lambda>p i. 300) init_state)
     = Some \<lparr>readings = [[300, 300, 300, 300, 300], [300, 300, 300, 300, 300]],
             readIndex = [0, 1], total = [1500, 1500], lastMidiValue = [- 1, - 1],
             lastSendTime = [0, 0], MidiUSB = []\<rparr>
   \<and> lastMidiValue (setup_ino (\<lambda>p i. 300) init_state) = [- 1, - 1]
   \<and> lastSendTime (setup_ino (\<lambda>p i. 300) init_state) = [0, 0]
   \<and> MidiUSB (setup_ino (\<lambda>p i. 300) init_state) = []"
proof -
  let ?st = "setup_ino (\<lambda>p i. 300) init_state"
  let ?st1 = "\<lparr>readings = [[300, 300, 300, 300, 300], [300, 300, 300, 300, 300]],
             readIndex = [0, 1], total = [1500, 1500], lastMidiValue = [- 1, - 1],
             lastSendTime = [0, 0], MidiUSB = []\<rparr>"
  have h1: "sample_step 1 (\<lambda>p. 300) ?st = Some ?st1"
    by code_simp
  have h2: "\<not> gate 1 3 (midiValue (avgRaw 1 ?st1)) ?st1"
    by code_simp
  from no_send_frame [OF h1 h2] h1 h2 show ?thesis by simp
qed

section \<open>The Control Change message\<close>

lemma midiCC_byte:
  assumes "f < FADER_COUNT"
  shows "uint (int_to_byte (midiCC ! f)) = sint (midiCC ! f)"
proof -
  from assms have "f = 0 \<or> f = 1" by (auto simp: FADER_COUNT_def)
  then show ?thesis
    by (auto simp add: midiCC_def MIDI_CC1_def MIDI_CC2_def int_to_byte_def)
qed

text \<open>
  Claim C7. \<^verbatim>\<open>sendCC\<close> hands to \<^verbatim>\<open>MidiUSB.sendMIDI\<close> the packet with header 0x0B, status
  byte 0xB0 or-ed with \<^verbatim>\<open>channel - 1\<close>, then the control number, then the value, and calls
  \<^verbatim>\<open>MidiUSB.flush\<close> next. When the pass of \<^verbatim>\<open>loop\<close> for fader \<open>f\<close> sends (the condition of
  lines 68 and 69 holds), these two calls are all it adds, the status byte is that of
  \<^verbatim>\<open>MIDI_CHANNEL\<close> = 1, that is 0xB0, the first data byte is \<^verbatim>\<open>midiCC[f]\<close> and the second
  one is the output value just computed, both unchanged by the conversion to \<^verbatim>\<open>byte\<close>.
\<close>

theorem control_change_packet:
  assumes "f < FADER_COUNT"
    and "sample_step f analogRead st = Some st1"
    and "gate f now (midiValue (avgRaw f st1)) st1"
  shows "MidiUSB (sendCC control val channel st0)
           = MidiUSB st0 @ [sendMIDI \<lparr>header = 0x0B, byte1 = 0xB0 OR (channel - 1),
                                       byte2 = control, byte3 = val\<rparr>, flush]
       \<and> (\<exists>st'. loop_body f now analogRead st = Some st'
             \<and> MidiUSB st' = MidiUSB st @
                  [sendMIDI \<lparr>header = 0x0B, byte1 = 0xB0 OR (int_to_byte MIDI_CHANNEL - 1),
                             byte2 = int_to_byte (midiCC ! f),
                             byte3 = int_to_byte (midiValue (avgRaw f st1))\<rparr>, flush])
       \<and> 0xB0 OR (int_to_byte MIDI_CHANNEL - 1) = (0xB0 :: byte)
       \<and> uint (int_to_byte (midiCC ! f)) = sint (midiCC ! f)
       \<and> uint (int_to_byte (midiValue (avgRaw f st1))) = sint (midiValue (avgRaw f st1))"
proof -
  have s: "MidiUSB (sendCC c v ch s0)
           = MidiUSB s0 @ [sendMIDI \<lparr>header = 0x0B, byte1 = 0xB0 OR (ch - 1),
                                       byte2 = c, byte3 = v\<rparr>, flush]" for c v ch s0
    by (simp add: sendCC_def status_byte)
  have "loop_body f now analogRead st = Some (emit f now (midiValue (avgRaw f st1)) st1)"
    using assms(3) by (simp add: loop_body_cases [OF assms(2)])
  moreover have "MidiUSB (emit f now v st1) = MidiUSB st @
                  [sendMIDI \<lparr>header = 0x0B, byte1 = 0xB0 OR (int_to_byte MIDI_CHANNEL - 1),
                             byte2 = int_to_byte (midiCC ! f), byte3 = int_to_byte v\<rparr>, flush]" for v
    by (simp add: emit_def s sample_step_frame(3) [OF assms(2)])
  moreover have "0xB0 OR (int_to_byte MIDI_CHANNEL - 1) = (0xB0 :: byte)"
    by (simp add: MIDI_CHANNEL_def int_to_byte_1)
  moreover have "uint (int_to_byte (midiValue (avgRaw f st1))) = sint (midiValue (avgRaw f st1))"
    using midiValue_range [of "avgRaw f st1"] by (intro uint_int_to_byte) simp_all
  ultimately show ?thesis
    using s midiCC_byte [OF assms(1)] by simp
qed

theorem control_change_packet_witness:
  "(0::nat) < FADER_COUNT
   \<and> sample_step 0 (\<lambda>p. 700) (setup_ino (\<lambda>p i. 700) init_state)
       = Some \<lparr>readings = [[700, 700, 700, 700, 700], [700, 700, 700, 700, 700]],
               readIndex = [1, 0], total = [3500, 3500], lastMidiValue = [- 1, - 1],
               lastSendTime = [0, 0], MidiUSB = []\<rparr>
   \<and> midiValue (avgRaw 0 \<lparr>readings = [[700, 700, 700, 700, 700], [700, 700, 700, 700, 700]],
               readIndex = [1, 0], total = [3500, 3500], lastMidiValue = [- 1, - 1],
               lastSendTime = [0, 0], MidiUSB = []\<rparr>) = 86
   \<and> gate 0 15 86 \<lparr>readings = [[700, 700, 700, 700, 700], [700, 700, 700, 700, 700]],
               readIndex = [1, 0], total = [3500, 3500], lastMidiValue = [- 1, - 1],
               lastSendTime = [0, 0], MidiUSB = []\<rparr>
   \<and> MidiUSB (sendCC 8 86 16 init_state)
       = [sendMIDI \<lparr>header = 0x0B, byte1 = 0xBF, byte2 = 8, byte3 = 86\<rparr>, flush]
   \<and> (\<exists>st'. loop_body 0 15 (\<lambda>p. 700) (setup_ino (\<lambda>p i. 700) init_state) = Some st'
         \<and> MidiUSB st' = [sendMIDI \<lparr>header = 0x0B, byte1 = 0xB0, byte2 = 7, byte3 = 86\<rparr>, flush])"
proof -
  let ?st = "setup_ino (\<lambda>p i. 700) init_state"
  let ?st1 = "\<lparr>readings = [[700, 700, 700, 700, 700], [700, 700, 700, 700, 700]],
               readIndex = [1, 0], total = [3500, 3500], lastMidiValue = [- 1, - 1],
               lastSendTime = [0, 0], MidiUSB = []\<rparr>"
  have h0: "(0::nat) < FADER_COUNT" by (simp add: FADER_COUNT_def)
  have h1: "sample_step 0 (\<lambda>p. 700) ?st = Some ?st1" by code_simp
  have e: "midiValue (avgRaw 0 ?st1) = 86" by code_simp
  have h2: "gate 0 15 (midiValue (avgRaw 0 ?st1)) ?st1" by code_simp
  have m: "MidiUSB ?st = []" "MidiUSB init_state = []" by code_simp+
  have c: "int_to_byte (midiCC ! 0) = 7" "int_to_byte 86 = 86" "int_to_byte MIDI_CHANNEL = 1"
    by code_simp+
  have o: "(0xB0 :: byte) OR (16 - 1) = 0xBF"
    by simp
  note t = control_change_packet [OF h0 h1 h2, of 8 86 16 init_state]
  from t have "MidiUSB (sendCC 8 86 16 init_state)
       = [sendMIDI \<lparr>header = 0x0B, byte1 = 0xBF, byte2 = 8, byte3 = 86\<rparr>, flush]"
    by (simp only: m o append_Nil)
  moreover from t have "\<exists>st'. loop_body 0 15 (\<lambda>p. 700) ?st = Some st'
         \<and> MidiUSB st' = [sendMIDI \<lparr>header = 0x0B, byte1 = 0xB0, byte2 = 7, byte3 = 86\<rparr>, flush]"
    by (simp only: m e c append_Nil) simp
  moreover from h2 have "gate 0 15 86 ?st1"
    by (simp only: e)
  ultimately show ?thesis
    using h0 h1 e by (intro conjI)
qed

section \<open>A constant input\<close>

lemma run_from_setup:
  assumes "f < FADER_COUNT"
  shows "\<exists>st. run ticks (setup_ino rd init_state) = Some st \<and> valid st
           \<and> window f st = most_recent AVG_SIZE (raw_samples f rd ticks)"
proof -
  obtain st where st: "run ticks (setup_ino rd init_state) = Some st" "valid st"
    using run_valid [OF valid_setup] by blast
  have "window f st = drop (length ticks) (raw_samples f rd ticks)"
    using run_window [OF valid_setup assms st(1)]
    by (simp only: window_setup [OF assms] raw_samples_def)
  then have "window f st = most_recent AVG_SIZE (raw_samples f rd ticks)"
    by (simp only: most_recent_raw_samples)
  with st show ?thesis by blast
qed

lemma most_recent_constant:
  assumes "n \<le> length ys" "\<forall>y\<in>set ys. y = v"
  shows "most_recent n (xs @ ys) = replicate n v"
proof -
  from assms(2) have ys: "ys = replicate (length ys) v"
    by (simp add: replicate_length_same)
  have "most_recent n (xs @ ys) = drop (length ys - n) ys"
    using assms(1) by (simp add: most_recent_def)
  also have "\<dots> = drop (length ys - n) (replicate (length ys) v)"
    using ys by simp
  also have "\<dots> = replicate n v"
    using assms(1) by simp
  finally show ?thesis .
qed

lemma rotate_eq_replicate:
  assumes "rotate k xs = replicate n v"
  shows "xs = replicate n v"
proof -
  have l: "length xs = n"
    using assms by (metis length_replicate length_rotate)
  have "set xs = set (rotate k xs)" by simp
  also have "\<dots> \<subseteq> {v}" by (auto simp add: assms)
  finally have "\<forall>y\<in>set xs. y = v" by blast
  then have "replicate (length xs) v = xs" by (rule replicate_length_same)
  with l show ?thesis by simp
qed

lemma sdiv_5_mult: "(5 * k) sdiv 5 = k" for k :: int
  by (simp add: signed_divide_int_def sgn_mult abs_mult mult_sgn_abs)

lemma avgRaw_of_sum:
  assumes "sint (total st ! f) = 5 * sint V"
  shows "avgRaw f st = V"
proof -
  have d: "sint (long_div (total st ! f) 5) = sint V"
    by (simp add: sint_long_div_5 assms sdiv_5_mult)
  have "sint (long_to_int (long_div (total st ! f) 5)) = sint V"
    using sint_int_range [of V] by (simp add: sint_long_to_int d)
  then have "long_to_int (long_div (total st ! f) 5) = V"
    by (rule signed_word_eqI)
  then show ?thesis by (simp add: avgRaw_def AVG_SIZE_def)
qed

lemma loop_body_total:
  assumes "sample_step g ar st = Some st1" "loop_body g now ar st = Some st'"
  shows "total st' = total st1"
  using assms(2) by (auto simp add: loop_body_cases [OF assms(1)] emit_def sendCC_def split: if_splits)

lemma loop_body_total_other:
  assumes "loop_body g now ar st = Some st'" "g \<noteq> f"
  shows "total st' ! f = total st ! f"
proof -
  from assms(1) obtain st1 where 1: "sample_step g ar st = Some st1"
    by (auto simp add: loop_body_def split: option.splits)
  have "total st1 ! f = total st ! f"
    using sample_step_frame(6) [OF 1] assms(2) by (metis nth_list_update_neq)
  with loop_body_total [OF 1 assms(1)] show ?thesis by simp
qed

text \<open>
  Claim C9. Let the input of fader \<open>f\<close> return the same value \<open>V\<close>, any \<^verbatim>\<open>int\<close>, in
  \<^verbatim>\<open>AVG_SIZE\<close> = 5 or more consecutive passes of \<^verbatim>\<open>loop\<close>, after any readings in \<^verbatim>\<open>setup\<close> and
  any earlier passes. Then the sketch reaches a state in which the row of the fader holds
  five times \<open>V\<close>, the running sum is exactly \<open>5 * V\<close>, and the average of line 55, the
  truncating division of the sum by 5, is \<open>V\<close>. The state is that at the end of the last
  pass; \<^verbatim>\<open>total[f]\<close> is not written after line 49, so this average is the one the last pass
  computed.
\<close>

theorem constant_input_average:
  assumes "f < FADER_COUNT"
    and "AVG_SIZE \<le> length ticks"
    and "\<forall>t\<in>set ticks. snd t (faderPins ! f) = V"
  shows "\<exists>st. run (before @ ticks) (setup_ino rd init_state) = Some st
           \<and> readings st ! f = replicate AVG_SIZE V
           \<and> sint (total st ! f) = int AVG_SIZE * sint V
           \<and> avgRaw f st = V"
proof -
  obtain st where st: "run (before @ ticks) (setup_ino rd init_state) = Some st" "valid st"
    and w: "window f st = most_recent AVG_SIZE (raw_samples f rd (before @ ticks))"
    using run_from_setup [OF assms(1)] by blast
  let ?g = "\<lambda>(now :: c_ulong, analogRead :: pin \<Rightarrow> c_int). analogRead (faderPins ! f)"
  have c: "\<forall>y\<in>set (map ?g ticks). y = V"
    using assms(3) by (auto simp: case_prod_beta)
  have "raw_samples f rd (before @ ticks)
          = (map (rd (faderPins ! f)) [0..<AVG_SIZE] @ map ?g before) @ map ?g ticks"
    by (simp add: raw_samples_def)
  moreover have "most_recent AVG_SIZE
     ((map (rd (faderPins ! f)) [0..<AVG_SIZE] @ map ?g before) @ map ?g ticks) = replicate AVG_SIZE V"
    using assms(2) by (intro most_recent_constant [OF _ c]) simp
  ultimately have "most_recent AVG_SIZE (raw_samples f rd (before @ ticks)) = replicate AVG_SIZE V"
    by (simp only:)
  with w have "rotate (cursor f st) (readings st ! f) = replicate AVG_SIZE V"
    by (simp add: window_def)
  then have r: "readings st ! f = replicate AVG_SIZE V"
    by (rule rotate_eq_replicate)
  from st(2) assms(1) have "sint (total st ! f) = (\<Sum>r\<leftarrow>readings st ! f. sint r)"
    by (simp add: valid_def)
  then have t: "sint (total st ! f) = 5 * sint V"
    by (simp add: r AVG_SIZE_def sum_list_replicate)
  from st(1) r t avgRaw_of_sum [OF t] show ?thesis
    by (simp add: AVG_SIZE_def)
qed

theorem constant_input_average_witness:
  "(0::nat) < FADER_COUNT
   \<and> AVG_SIZE \<le> length [(1 :: c_ulong, \<lambda>p :: pin. - 7 :: c_int), (2, \<lambda>p. - 7), (3, \<lambda>p. - 7), (4, \<lambda>p. - 7), (5, \<lambda>p. - 7)]
   \<and> (\<exists>st. run ([(0, \<lambda>p. 900)] @ [(1, \<lambda>p. - 7), (2, \<lambda>p. - 7), (3, \<lambda>p. - 7), (4, \<lambda>p. - 7), (5, \<lambda>p. - 7)])
               (setup_ino (\<lambda>p i. 1023) init_state) = Some st
          \<and> readings st ! 0 = [- 7, - 7, - 7, - 7, - 7]
          \<and> sint (total st ! 0) = - 35
          \<and> avgRaw 0 st = - 7)"
proof -
  let ?ticks = "[(1 :: c_ulong, \<lambda>p :: pin. - 7 :: c_int), (2, \<lambda>p. - 7), (3, \<lambda>p. - 7), (4, \<lambda>p. - 7), (5, \<lambda>p. - 7)]"
  have h0: "(0::nat) < FADER_COUNT" by (simp add: FADER_COUNT_def)
  have h1: "AVG_SIZE \<le> length ?ticks" by (simp add: AVG_SIZE_def)
  have h2: "\<forall>t\<in>set ?ticks. snd t (faderPins ! 0) = - 7" by simp
  from constant_input_average [OF h0 h1 h2, of "[(0, \<lambda>p. 900)]" "\<lambda>p i. 1023"] h0 h1
  show ?thesis by (simp add: AVG_SIZE_def replicate_5)
qed

section \<open>The first send\<close>

text \<open>While \<^verbatim>\<open>lastMidiValue[f]\<close> is still -1 and the interval has elapsed, the pass sends
  exactly when the output value is at least 2: the initial -1 takes part in the test of
  line 68 like any value sent before.\<close>

lemma first_send_iff:
  assumes "sample_step f analogRead st = Some st1"
    and "lastMidiValue st ! f = - 1"
    and "int_to_long SEND_INTERVAL \<le> now - lastSendTime st ! f"
  shows "gate f now (midiValue (avgRaw f st1)) st1 \<longleftrightarrow> 2 \<le> sint (midiValue (avgRaw f st1))"
proof -
  let ?v = "midiValue (avgRaw f st1)"
  have r: "0 \<le> sint ?v" "sint ?v \<le> 127"
    using midiValue_range [of "avgRaw f st1"] by simp_all
  then have "DEADZONE \<le>s abs_macro (?v - (- 1)) \<longleftrightarrow> 3 \<le> \<bar>sint ?v - sint (- 1 :: c_int)\<bar>"
    by (intro deadzone_test) simp_all
  with r assms(2,3) show ?thesis
    by (simp add: gate_def sample_step_frame(1,2) [OF assms(1)])
qed

text \<open>
  Claim C1, evaluated on the sketch. Both faders rest at the bottom: every call of
  \<^verbatim>\<open>analogRead\<close> returns 0. After \<^verbatim>\<open>setup\<close>, \<^verbatim>\<open>lastMidiValue[0]\<close> is -1 and
  \<^verbatim>\<open>lastSendTime[0]\<close> is 0, so at \<^verbatim>\<open>millis()\<close> = 15 the interval test of line 69 holds. The
  output value is 0 and \<^verbatim>\<open>abs(0 - (-1))\<close> = 1 is below \<^verbatim>\<open>DEADZONE\<close>: the pass sends nothing,
  nor do the passes at 30 and at 1000, and \<^verbatim>\<open>lastMidiValue\<close> is still -1 after them.
\<close>

theorem first_reading_at_zero_not_sent:
  "lastMidiValue (setup_ino (\<lambda>p i. 0) init_state) ! 0 = - 1
   \<and> int_to_long SEND_INTERVAL \<le> 15 - lastSendTime (setup_ino (\<lambda>p i. 0) init_state) ! 0
   \<and> loop_body 0 15 (\<lambda>p. 0) (setup_ino (\<lambda>p i. 0) init_state)
       = Some \<lparr>readings = [[0, 0, 0, 0, 0], [0, 0, 0, 0, 0]], readIndex = [1, 0],
               total = [0, 0], lastMidiValue = [- 1, - 1], lastSendTime = [0, 0],
               MidiUSB = []\<rparr>
   \<and> run [(15, \<lambda>p. 0), (30, \<lambda>p. 0), (1000, \<lambda>p. 0)] (setup_ino (\<lambda>p i. 0) init_state)
       = Some \<lparr>readings = [[0, 0, 0, 0, 0], [0, 0, 0, 0, 0]], readIndex = [3, 3],
               total = [0, 0], lastMidiValue = [- 1, - 1], lastSendTime = [0, 0],
               MidiUSB = []\<rparr>"
  by code_simp

end
